theory Spec2Isabelle
  imports Complex_Main
begin

section \<open>Numbers\<close>

text \<open>
  The program computes with Python floats. Where a result does not depend on how an
  operation rounds (the seasonality curves, the market state), a float is modelled as an
  exact real. Where it does (the risk index, the merging of zones), the operations are
  those of double precision, defined below. Python's \<^verbatim>\<open>round(x)\<close> rounds the exact value
  of a float to the nearest integer and breaks ties towards the even one; \<^verbatim>\<open>round(x, 2)\<close> does
  the same at two decimals.
\<close>

definition py_round :: "real \<Rightarrow> int" where
  "py_round x =
     (let f = \<lfloor>x\<rfloor>; d = x - of_int f
      in if d < 1 / 2 then f else if 1 / 2 < d then f + 1 else if even f then f else f + 1)"

definition round2 :: "real \<Rightarrow> real" where
  "round2 x = of_int (py_round (x * 100)) / 100"

datatype py_error = ZeroDivisionError | IndexError

text \<open>A float cell of a data frame: missing (NaN), an infinity, or a finite number.\<close>

datatype cell = NaN | NInf | Fin real | PInf

text \<open>\<^verbatim>\<open>notna\<close>: an infinity is not missing.\<close>

definition notna :: "cell \<Rightarrow> bool" where
  "notna c = (c \<noteq> NaN)"

section \<open>Double precision\<close>

text \<open>
  Where a result depends on the rounding of the arithmetic, a Python float is modelled as
  the real number it stands for, and every operation rounds its exact result to the
  nearest double, ties to the even mantissa (IEEE 754 binary64, 53 bits, with the fixed
  spacing \<open>2 ^ -1074\<close> of the subnormal range). Infinities and NaN are outside this
  model.

  \<open>norm_fl\<close> scales a positive number into \<open>[2 ^ 52, 2 ^ 53)\<close>, or stops at the
  exponent \<open>-1074\<close>; its first argument bounds the number of steps and is large enough for
  every double.
\<close>

fun norm_fl :: "nat \<Rightarrow> real \<Rightarrow> int \<Rightarrow> real \<times> int" where
  "norm_fl 0 m e = (m, e)"
| "norm_fl (Suc n) m e =
     (if 2 ^ 53 \<le> m then norm_fl n (m / 2) (e + 1)
      else if m < 2 ^ 52 \<and> - 1074 < e then norm_fl n (2 * m) (e - 1)
      else (m, e))"

definition scale2 :: "real \<Rightarrow> int \<Rightarrow> real" where
  "scale2 m e = (if 0 \<le> e then m * 2 ^ nat e else m / 2 ^ nat (- e))"

definition fl :: "real \<Rightarrow> real" where
  "fl x =
     (if x = 0 then 0
      else (case norm_fl 2200 \<bar>x\<bar> 0 of
              (m, e) \<Rightarrow> sgn x * scale2 (of_int (py_round m)) e))"

definition fadd :: "real \<Rightarrow> real \<Rightarrow> real" where
  "fadd a b = fl (a + b)"

definition fsub :: "real \<Rightarrow> real \<Rightarrow> real" where
  "fsub a b = fl (a - b)"

definition fmul :: "real \<Rightarrow> real \<Rightarrow> real" where
  "fmul a b = fl (a * b)"

definition fdiv :: "real \<Rightarrow> real \<Rightarrow> real" where
  "fdiv a b = fl (a / b)"

text \<open>
  \<^verbatim>\<open>round(x, 2)\<close> on a float: the exact value is rounded to two decimals, ties to even, and
  the decimal result is converted to the nearest double.
\<close>

definition round2_f :: "real \<Rightarrow> real" where
  "round2_f x = fl (of_int (py_round (x * 100)) / 100)"


section \<open>Strings\<close>

text \<open>
  Strings are lists of bytes. \<^verbatim>\<open>str.upper\<close>, \<^verbatim>\<open>str.strip\<close> and the regular-expression
  classes \<^verbatim>\<open>\d\<close> and \<^verbatim>\<open>[A-Z]\<close> are modelled on ASCII.
\<close>

definition upper_char :: "char \<Rightarrow> char" where
  "upper_char c =
     (case map_of (zip ''abcdefghijklmnopqrstuvwxyz'' ''ABCDEFGHIJKLMNOPQRSTUVWXYZ'') c of
        Some u \<Rightarrow> u
      | None \<Rightarrow> c)"

definition upper :: "string \<Rightarrow> string" where
  "upper s = map upper_char s"

definition is_space :: "char \<Rightarrow> bool" where
  "is_space c = (c \<in> set [CHR '' '', CHR 0x09, CHR 0x0A, CHR 0x0B, CHR 0x0C, CHR 0x0D,
                           CHR 0x1C, CHR 0x1D, CHR 0x1E, CHR 0x1F])"

definition strip :: "string \<Rightarrow> string" where
  "strip s = rev (dropWhile is_space (rev (dropWhile is_space s)))"

definition replace_char :: "char \<Rightarrow> string \<Rightarrow> string" where
  "replace_char c s = filter (\<lambda>x. x \<noteq> c) s"

definition is_digit :: "char \<Rightarrow> bool" where
  "is_digit c = (c \<in> set ''0123456789'')"

definition is_AZ :: "char \<Rightarrow> bool" where
  "is_AZ c = (c \<in> set ''ABCDEFGHIJKLMNOPQRSTUVWXYZ'')"

definition is_az :: "char \<Rightarrow> bool" where
  "is_az c = (c \<in> set ''abcdefghijklmnopqrstuvwxyz'')"

section \<open>Ticker resolver\<close>

text \<open>\<^verbatim>\<open>$\<close> matches at the end of the string and before a final newline.\<close>

definition re_end :: "string \<Rightarrow> bool" where
  "re_end r = (r = [] \<or> r = [CHR 0x0A])"

text \<open>\<^verbatim>\<open>re.match(r"^\d+[A-Z]{1,6}$", t)\<close>\<close>

definition match_digits_letters :: "string \<Rightarrow> bool" where
  "match_digits_letters t =
     (let ds = takeWhile is_digit t; r1 = dropWhile is_digit t;
          ls = takeWhile is_AZ r1; r2 = dropWhile is_AZ r1
      in ds \<noteq> [] \<and> 1 \<le> length ls \<and> length ls \<le> 6 \<and> re_end r2)"

text \<open>\<^verbatim>\<open>re.match(r"^\d+[A-Z]{1,6}(\.[A-Z]{1,3})?$", t)\<close>\<close>

definition match_digits_letters_suffix :: "string \<Rightarrow> bool" where
  "match_digits_letters_suffix t =
     (let ds = takeWhile is_digit t; r1 = dropWhile is_digit t;
          ls = takeWhile is_AZ r1; r2 = dropWhile is_AZ r1
      in ds \<noteq> [] \<and> 1 \<le> length ls \<and> length ls \<le> 6
         \<and> (re_end r2
              \<or> (case r2 of
                    [] \<Rightarrow> False
                  | c # r3 \<Rightarrow>
                      c = CHR ''.''
                      \<and> (let sfx = takeWhile is_AZ r3
                          in 1 \<le> length sfx \<and> length sfx \<le> 3 \<and> re_end (dropWhile is_AZ r3)))))"

definition normalize_ticker :: "string \<Rightarrow> string" where
  "normalize_ticker val =
     (if val = [] then val
      else (let t = replace_char CHR '' '' (upper (strip val))
            in if match_digits_letters_suffix t then dropWhile is_digit t else t))"

definition ticker_candidates :: "string \<Rightarrow> string list" where
  "ticker_candidates raw =
     (let raw_up = replace_char CHR '' '' (upper (strip raw));
          norm = normalize_ticker raw_up;
          candidates = (if raw_up \<noteq> [] \<and> CHR ''.'' \<notin> set raw_up \<and> match_digits_letters raw_up
                        then [raw_up @ ''.MI''] else []);
          candidates = (if raw_up \<noteq> [] \<and> raw_up \<notin> set candidates
                        then candidates @ [raw_up] else candidates);
          candidates = (if norm \<noteq> [] \<and> norm \<notin> set candidates
                        then candidates @ [norm] else candidates)
      in candidates)"

section \<open>Cache layer\<close>

text \<open>
  A cache is a Python dict from keys to \<^verbatim>\<open>(payload, timestamp)\<close>. A dict keeps its keys in
  insertion order, which is the order \<^verbatim>\<open>min\<close> walks it in, so it is modelled as an
  association list with distinct keys. \<^verbatim>\<open>datetime.utcnow()\<close> is the parameter \<open>now\<close>;
  timestamps and durations are integers (microseconds).
\<close>

type_synonym ('k, 'p) cache = "('k \<times> 'p \<times> int) list"

text \<open>\<^verbatim>\<open>d[key] = v\<close> keeps the position of a key that is already present.\<close>

definition dict_set :: "('k \<times> 'v) list \<Rightarrow> 'k \<Rightarrow> 'v \<Rightarrow> ('k \<times> 'v) list" where
  "dict_set d key v =
     (if key \<in> fst ` set d then map (\<lambda>(k, x). if k = key then (k, v) else (k, x)) d
      else d @ [(key, v)])"

definition dict_del :: "('k \<times> 'v) list \<Rightarrow> 'k \<Rightarrow> ('k \<times> 'v) list" where
  "dict_del d key = filter (\<lambda>(k, x). k \<noteq> key) d"

text \<open>
  \<^verbatim>\<open>min(cache_dict, key=lambda k: cache_dict[k][1])\<close>: the first entry, in iteration order,
  with the smallest timestamp.
\<close>

fun oldest :: "('k \<times> 'p \<times> int) \<Rightarrow> ('k, 'p) cache \<Rightarrow> ('k \<times> 'p \<times> int)" where
  "oldest best [] = best"
| "oldest best (e # es) =
     (if snd (snd e) < snd (snd best) then oldest e es else oldest best es)"

definition cache_get ::
  "('k, 'p) cache \<Rightarrow> 'k \<Rightarrow> int \<Rightarrow> int \<Rightarrow> 'p option \<times> ('k, 'p) cache" where
  "cache_get cache_dict key ttl now =
     (case map_of cache_dict key of
        None \<Rightarrow> (None, cache_dict)
      | Some (payload, ts) \<Rightarrow>
          if now - ts < ttl then (Some payload, cache_dict)
          else (None, dict_del cache_dict key))"

definition cache_set ::
  "('k, 'p) cache \<Rightarrow> 'k \<Rightarrow> 'p \<Rightarrow> int \<Rightarrow> int \<Rightarrow> ('k, 'p) cache" where
  "cache_set cache_dict key payload now max_size =
     (let c = dict_set cache_dict key (payload, now)
      in if max_size < int (length c)
         then (case c of
                 [] \<Rightarrow> c
               | e # es \<Rightarrow> dict_del c (fst (oldest e es)))
         else c)"

text \<open>A run of \<^verbatim>\<open>_cache_set\<close> calls \<open>(key, payload, now)\<close> on one cache with one bound.\<close>

definition cache_sets :: "int \<Rightarrow> ('k \<times> 'p \<times> int) list \<Rightarrow> ('k, 'p) cache \<Rightarrow> ('k, 'p) cache" where
  "cache_sets max_size ops cache_dict =
     fold (\<lambda>(key, payload, now) c. cache_set c key payload now max_size) ops cache_dict"

section \<open>Fundamentals snapshot\<close>

text \<open>
  The values a provider response holds: \<^verbatim>\<open>None\<close>, a bool, a finite number (int or float),
  a non-finite float (NaN or an infinity), a string, or a nested dict.
\<close>

datatype pyval =
    PNone
  | PBool bool
  | PNum real
  | PNonFinite
  | PStr string
  | PDict "(string \<times> pyval) list"

definition truthy :: "pyval \<Rightarrow> bool" where
  "truthy v =
     (case v of
        PNone \<Rightarrow> False
      | PBool b \<Rightarrow> b
      | PNum r \<Rightarrow> r \<noteq> 0
      | PNonFinite \<Rightarrow> True
      | PStr s \<Rightarrow> s \<noteq> []
      | PDict d \<Rightarrow> d \<noteq> [])"

definition na_tokens :: "string list" where
  "na_tokens = [''N/A'', ''ND'', ''N/D'', ''-'', ''--'', [CHR 0xE2, CHR 0x80, CHR 0x94]]"

definition suffix_mult :: "char \<Rightarrow> real option" where
  "suffix_mult c =
     map_of [(CHR ''K'', 1000), (CHR ''M'', 1000000), (CHR ''B'', 1000000000),
             (CHR ''T'', 1000000000000)] c"

text \<open>
  \<^verbatim>\<open>_to_float\<close> on a string. Python's builtin \<^verbatim>\<open>float(s)\<close> is the parameter \<open>py_float\<close>:
  \<open>py_float s = Some x\<close> when \<^verbatim>\<open>float(s)\<close> is the finite number \<open>x\<close>, and \<open>None\<close> when it
  raises or is not finite (both make \<^verbatim>\<open>_to_float\<close> return \<^verbatim>\<open>None\<close>).
\<close>

lemma length_strip_le: "length (strip s) \<le> length s"
proof -
  have "length (strip s) \<le> length (dropWhile is_space s)"
    unfolding strip_def using length_dropWhile_le[of is_space "rev (dropWhile is_space s)"] by simp
  also have "\<dots> \<le> length s" by (rule length_dropWhile_le)
  finally show ?thesis .
qed

lemma length_clean_le: "length (replace_char c (strip s)) \<le> length s"
  unfolding replace_char_def
  using length_filter_le[of "\<lambda>x. x \<noteq> c" "strip s"] length_strip_le[of s] by linarith

function str_to_float :: "(string \<Rightarrow> real option) \<Rightarrow> string \<Rightarrow> real option" where
  "str_to_float py_float val =
     (let s = replace_char CHR '','' (strip val)
      in if s = [] \<or> upper s \<in> set na_tokens then None
         else if last s = CHR ''%''
         then (case str_to_float py_float (butlast s) of
                 Some base \<Rightarrow> Some (base / 100)
               | None \<Rightarrow> None)
         else (case suffix_mult (upper_char (last s)) of
                 Some mult \<Rightarrow> map_option (\<lambda>v. v * mult) (py_float (butlast s))
               | None \<Rightarrow> py_float s))"
  by pat_completeness auto

termination
proof (relation "measure (\<lambda>(f, s). length s)")
  show "wf (measure (\<lambda>(f :: string \<Rightarrow> real option, s :: string). length s))"
    by simp
next
  fix py_float :: "string \<Rightarrow> real option" and val s :: string
  assume s: "s = replace_char CHR '','' (strip val)" and ne: "\<not> (s = [] \<or> upper s \<in> set na_tokens)"
  from ne have "length (butlast s) < length s" by (cases s rule: rev_cases) auto
  moreover have "length s \<le> length val" unfolding s by (rule length_clean_le)
  ultimately show "((py_float, butlast s), (py_float, val)) \<in> measure (\<lambda>(f, s). length s)"
    by simp
qed

lemma map_of_size [termination_simp]:
  "map_of d k = Some v \<Longrightarrow> size (v :: pyval) < Suc (size_list (\<lambda>x. Suc (size (snd x))) d)"
  by (induction d) (auto split: if_splits)

fun to_float :: "(string \<Rightarrow> real option) \<Rightarrow> pyval \<Rightarrow> real option" where
  "to_float py_float PNone = None"
| "to_float py_float (PBool b) = None"
| "to_float py_float (PNum r) = Some r"
| "to_float py_float PNonFinite = None"
| "to_float py_float (PDict d) =
     (case map_of d ''raw'' of
        Some v \<Rightarrow> to_float py_float v
      | None \<Rightarrow> (case map_of d ''fmt'' of Some v \<Rightarrow> to_float py_float v | None \<Rightarrow> None))"
| "to_float py_float (PStr s) = str_to_float py_float s"

text \<open>\<^verbatim>\<open>str(value)\<close> is the parameter \<open>py_str\<close>; on a string it is the identity.\<close>

definition str_of :: "(pyval \<Rightarrow> string) \<Rightarrow> pyval \<Rightarrow> string" where
  "str_of py_str v = (case v of PStr s \<Rightarrow> s | _ \<Rightarrow> py_str v)"

definition to_text :: "(pyval \<Rightarrow> string) \<Rightarrow> pyval \<Rightarrow> string option" where
  "to_text py_str val =
     (case val of
        PNone \<Rightarrow> None
      | PDict d \<Rightarrow>
          (case map_of d ''fmt'' of
             Some f \<Rightarrow>
               if truthy f then Some (strip (str_of py_str f))
               else (case map_of d ''raw'' of
                       Some r \<Rightarrow> if r \<noteq> PNone then Some (strip (str_of py_str r)) else None
                     | None \<Rightarrow> None)
           | None \<Rightarrow>
               (case map_of d ''raw'' of
                  Some r \<Rightarrow> if r \<noteq> PNone then Some (strip (str_of py_str r)) else None
                | None \<Rightarrow> None))
      | PStr s \<Rightarrow> (let txt = strip s in if txt = [] then None else Some txt)
      | _ \<Rightarrow> (let txt = strip (py_str val) in if txt = [] then None else Some txt))"

definition text_keys :: "string set" where
  "text_keys = {''shortName'', ''sector''}"

text \<open>\<^verbatim>\<open>target.get(k)\<close>: \<^verbatim>\<open>None\<close> for a missing key.\<close>

definition dict_get :: "(string \<rightharpoonup> pyval) \<Rightarrow> string \<Rightarrow> pyval" where
  "dict_get d k = (case d k of None \<Rightarrow> PNone | Some v \<Rightarrow> v)"

definition coerce :: "(string \<Rightarrow> real option) \<Rightarrow> (pyval \<Rightarrow> string) \<Rightarrow> string \<Rightarrow> pyval \<Rightarrow> pyval option" where
  "coerce py_float py_str k v =
     (if k \<in> text_keys then map_option PStr (to_text py_str v)
      else map_option PNum (to_float py_float v))"

text \<open>One iteration of the loop of \<^verbatim>\<open>_merge_missing_info\<close>; the dict is updated in place.\<close>

definition merge_item ::
  "(string \<Rightarrow> real option) \<Rightarrow> (pyval \<Rightarrow> string) \<Rightarrow> string \<times> pyval
    \<Rightarrow> (string \<rightharpoonup> pyval) \<Rightarrow> (string \<rightharpoonup> pyval)" where
  "merge_item py_float py_str kv target =
     (case kv of (k, v) \<Rightarrow>
        if dict_get target k \<noteq> PNone \<or> v = PNone then target
        else if k \<in> text_keys
        then (case to_text py_str v of Some txt \<Rightarrow> target(k \<mapsto> PStr txt) | None \<Rightarrow> target)
        else (case to_float py_float v of Some num \<Rightarrow> target(k \<mapsto> PNum num) | None \<Rightarrow> target))"

definition merge_missing_info ::
  "(string \<Rightarrow> real option) \<Rightarrow> (pyval \<Rightarrow> string) \<Rightarrow> (string \<rightharpoonup> pyval) \<Rightarrow> pyval
    \<Rightarrow> (string \<rightharpoonup> pyval)" where
  "merge_missing_info py_float py_str target source =
     (case source of
        PDict items \<Rightarrow> fold (merge_item py_float py_str) items target
      | _ \<Rightarrow> target)"

section \<open>Risk composite\<close>




















datatype risk_level = ND | Alto | Medio | Basso

definition risk_level :: "int option \<Rightarrow> risk_level" where
  "risk_level idx =
     (case idx of
        None \<Rightarrow> ND
      | Some i \<Rightarrow> if 67 \<le> i then Alto else if 34 \<le> i then Medio else Basso)"

section \<open>Seasonality\<close>











section \<open>Supply/demand zones\<close>

text \<open>A zone is the dict \<^verbatim>\<open>{"price": .., "min": .., "max": ..}\<close>.\<close>

record zone =
  price :: real
  zone_min :: real
  zone_max :: real

record zones =
  support :: "zone list"
  resistance :: "zone list"

text \<open>
  The merge works on Python floats: the gap test, the mean and the two-decimal rounding
  are in double precision.
\<close>

definition merge_step :: "real \<Rightarrow> zone \<Rightarrow> zone list \<Rightarrow> zone list" where
  "merge_step min_gap_pct item merged =
     (let lst = last merged;
          gap = \<bar>fsub (price item) (price lst)\<bar>;
          min_gap = fmul (price lst) (fdiv min_gap_pct 100)
      in if gap \<le> min_gap
         then butlast merged @
              [\<lparr>price = round2_f (fdiv (fadd (price lst) (price item)) 2),
                zone_min = round2_f (min (zone_min lst) (zone_min item)),
                zone_max = round2_f (max (zone_max lst) (zone_max item))\<rparr>]
         else merged @ [item])"

definition merge_list :: "real \<Rightarrow> zone list \<Rightarrow> zone list" where
  "merge_list min_gap_pct items =
     (case sort_key price items of
        [] \<Rightarrow> items
      | first # rest \<Rightarrow> fold (merge_step min_gap_pct) rest [first])"

definition merge_close_zones :: "zones \<Rightarrow> real \<Rightarrow> zones" where
  "merge_close_zones zs min_gap_pct =
     (if min_gap_pct \<le> 0 then zs
      else \<lparr>support = merge_list min_gap_pct (support zs),
            resistance = merge_list min_gap_pct (resistance zs)\<rparr>)"

datatype market_state = IN_DEMAND | IN_SUPPLY | IN_NONE

text \<open>\<^verbatim>\<open>max(values, default=None)\<close> and \<^verbatim>\<open>min(values, default=None)\<close>.\<close>

fun max_default :: "real list \<Rightarrow> real option" where
  "max_default [] = None"
| "max_default (x # xs) = (case max_default xs of None \<Rightarrow> Some x | Some m \<Rightarrow> Some (max x m))"

fun min_default :: "real list \<Rightarrow> real option" where
  "min_default [] = None"
| "min_default (x # xs) = (case min_default xs of None \<Rightarrow> Some x | Some m \<Rightarrow> Some (min x m))"

text \<open>
  \<^verbatim>\<open>determine_market_state(price, supports, resistances, proximity=1.5)\<close>. The two
  percentage distances divide by the nearest zone price; a zone price of zero raises
  ZeroDivisionError in Python.
\<close>

definition determine_market_state ::
  "real \<Rightarrow> zone list \<Rightarrow> zone list \<Rightarrow> real \<Rightarrow> py_error + (market_state \<times> real)" where
  "determine_market_state p supports resistances proximity =
     (let nearest_support = max_default (filter (\<lambda>v. v \<le> p) (map price supports));
          nearest_resistance = min_default (filter (\<lambda>v. p \<le> v) (map price resistances))
      in case nearest_support of
           None \<Rightarrow> Inr (IN_NONE, 0)
         | Some ns \<Rightarrow>
             (case nearest_resistance of
                None \<Rightarrow> Inr (IN_NONE, 0)
              | Some nr \<Rightarrow>
                  if ns = 0 \<or> nr = 0 then Inl ZeroDivisionError
                  else
                    (let dist_support = ((p - ns) / ns) * 100;
                         dist_resistance = ((nr - p) / nr) * 100;
                         strength = round2 (100 - min dist_support dist_resistance)
                     in if dist_support < dist_resistance \<and> dist_support < proximity
                        then Inr (IN_DEMAND, strength)
                        else if dist_resistance < dist_support \<and> dist_resistance < proximity
                        then Inr (IN_SUPPLY, strength)
                        else Inr (IN_NONE, strength))))"

section \<open>Normalizer\<close>

text \<open>
  A frame is the list of its rows, each with a calendar date as index and the five OHLCV
  columns. The pandas operations the code calls are modelled as pandas documents them:
  \<^verbatim>\<open>resample(rule)\<close> sorts the rows by index and puts each row into the bin that is closed and
  labelled on the right (the week ending Friday for \<^verbatim>\<open>W-FRI\<close>, the calendar month for
  \<^verbatim>\<open>ME\<close>); \<^verbatim>\<open>first\<close>, \<^verbatim>\<open>last\<close>, \<^verbatim>\<open>max\<close>, \<^verbatim>\<open>min\<close> and \<^verbatim>\<open>sum\<close> skip NaN, giving NaN (for
  \<^verbatim>\<open>sum\<close>: 0) on a bin with no value; \<^verbatim>\<open>dropna\<close> removes the rows whose cell is NaN, and an
  infinity is not NaN.
\<close>

record date =
  d_year :: int
  d_month :: int
  d_day :: int

record bar =
  index :: date
  Open :: cell
  High :: cell
  Low :: cell
  Close :: cell
  Volume :: cell

text \<open>Days since 1970-01-01 of a date of the proleptic Gregorian calendar, and back.\<close>

definition days_from_civil :: "date \<Rightarrow> int" where
  "days_from_civil dt =
     (let y = (if d_month dt \<le> 2 then d_year dt - 1 else d_year dt);
          era = y div 400;
          yoe = y - era * 400;
          mp = (if 2 < d_month dt then d_month dt - 3 else d_month dt + 9);
          doy = (153 * mp + 2) div 5 + d_day dt - 1;
          doe = yoe * 365 + yoe div 4 - yoe div 100 + doy
      in era * 146097 + doe - 719468)"

definition civil_from_days :: "int \<Rightarrow> date" where
  "civil_from_days n =
     (let z = n + 719468;
          era = z div 146097;
          doe = z - era * 146097;
          yoe = (doe - doe div 1460 + doe div 36524 - doe div 146096) div 365;
          doy = doe - (365 * yoe + yoe div 4 - yoe div 100);
          mp = (5 * doy + 2) div 153;
          m = (if mp < 10 then mp + 3 else mp - 9);
          y = yoe + era * 400
      in \<lparr>d_year = (if m \<le> 2 then y + 1 else y), d_month = m,
          d_day = doy - (153 * mp + 2) div 5 + 1\<rparr>)"

definition is_leap :: "int \<Rightarrow> bool" where
  "is_leap y = (y mod 4 = 0 \<and> (y mod 100 \<noteq> 0 \<or> y mod 400 = 0))"

definition days_in_month :: "int \<Rightarrow> int \<Rightarrow> int" where
  "days_in_month y m =
     (if m = 2 then (if is_leap y then 29 else 28)
      else if m = 4 \<or> m = 6 \<or> m = 9 \<or> m = 11 then 30 else 31)"

text \<open>Monday is 0; 1970-01-01 was a Thursday.\<close>

definition weekday :: "int \<Rightarrow> int" where
  "weekday n = (n + 3) mod 7"

datatype rule = W_FRI | ME

text \<open>The day number of the right edge (and label) of the bin a date falls into.\<close>

definition bucket_end :: "rule \<Rightarrow> date \<Rightarrow> int" where
  "bucket_end r dt =
     (case r of
        ME \<Rightarrow> days_from_civil (dt\<lparr>d_day := days_in_month (d_year dt) (d_month dt)\<rparr>)
      | W_FRI \<Rightarrow> (let n = days_from_civil dt in n + (4 - weekday n) mod 7))"

definition first_valid :: "cell list \<Rightarrow> cell" where
  "first_valid xs = (case filter notna xs of [] \<Rightarrow> NaN | x # _ \<Rightarrow> x)"

definition last_valid :: "cell list \<Rightarrow> cell" where
  "last_valid xs = (case rev (filter notna xs) of [] \<Rightarrow> NaN | x # _ \<Rightarrow> x)"

fun cell_le :: "cell \<Rightarrow> cell \<Rightarrow> bool" where
  "cell_le NInf _ = True"
| "cell_le _ PInf = True"
| "cell_le (Fin a) (Fin b) = (a \<le> b)"
| "cell_le _ _ = False"

definition max_valid :: "cell list \<Rightarrow> cell" where
  "max_valid xs =
     (case filter notna xs of
        [] \<Rightarrow> NaN
      | x # rest \<Rightarrow> fold (\<lambda>c m. if cell_le c m then m else c) rest x)"

definition min_valid :: "cell list \<Rightarrow> cell" where
  "min_valid xs =
     (case filter notna xs of
        [] \<Rightarrow> NaN
      | x # rest \<Rightarrow> fold (\<lambda>c m. if cell_le m c then m else c) rest x)"

fun cell_add :: "cell \<Rightarrow> cell \<Rightarrow> cell" where
  "cell_add (Fin a) (Fin b) = Fin (a + b)"
| "cell_add NaN _ = NaN"
| "cell_add _ NaN = NaN"
| "cell_add PInf NInf = NaN"
| "cell_add NInf PInf = NaN"
| "cell_add PInf _ = PInf"
| "cell_add _ PInf = PInf"
| "cell_add NInf _ = NInf"
| "cell_add _ NInf = NInf"

definition sum_valid :: "cell list \<Rightarrow> cell" where
  "sum_valid xs = fold (\<lambda>c acc. cell_add acc c) (filter notna xs) (Fin 0)"

definition agg :: "int \<Rightarrow> bar list \<Rightarrow> bar" where
  "agg label rows =
     \<lparr>index = civil_from_days label,
      Open = first_valid (map Open rows),
      High = max_valid (map High rows),
      Low = min_valid (map Low rows),
      Close = last_valid (map Close rows),
      Volume = sum_valid (map Volume rows)\<rparr>"

definition sort_index :: "bar list \<Rightarrow> bar list" where
  "sort_index df = sort_key (\<lambda>b. days_from_civil (index b)) df"

definition bucket :: "rule \<Rightarrow> bar list \<Rightarrow> int \<Rightarrow> bar list" where
  "bucket r df label = filter (\<lambda>b. bucket_end r (index b) = label) (sort_index df)"

definition resample_ohlc :: "bar list \<Rightarrow> rule \<Rightarrow> bar list" where
  "resample_ohlc df r =
     (let labels = sort (remdups (map (\<lambda>b. bucket_end r (index b)) df));
          out = map (\<lambda>label. agg label (bucket r df label)) labels
      in filter (\<lambda>b. notna (Close b)) out)"


text \<open>
  \<^verbatim>\<open>_normalize_ohlc_df\<close>: an empty frame stays empty; the column levels and the time zone are
  not part of the model, the rows are sorted by index.
\<close>

definition normalize_ohlc_df :: "bar list \<Rightarrow> bar list" where
  "normalize_ohlc_df df = (if df = [] then [] else sort_index df)"

text \<open>
  \<^verbatim>\<open>_fetch_interval_history\<close>. The three providers are parameters: \<open>safe_history\<close> and
  \<open>safe_download\<close> take the period and the interval, \<open>fetch_chart_data\<close> the range and the
  interval; each returns a frame, empty on any failure.
\<close>

definition fetch_interval_history ::
  "(string \<Rightarrow> string \<Rightarrow> bar list) \<Rightarrow> (string \<Rightarrow> string \<Rightarrow> bar list)
    \<Rightarrow> (string \<Rightarrow> string \<Rightarrow> bar list) \<Rightarrow> string \<Rightarrow> string \<Rightarrow> string \<Rightarrow> bar list" where
  "fetch_interval_history safe_history safe_download fetch_chart_data period interval chart_range =
     (let hist = normalize_ohlc_df (safe_history period interval);
          hist = (if hist = [] then normalize_ohlc_df (safe_download period interval) else hist);
          hist =
            (if hist = [] \<and> (interval = ''1wk'' \<or> interval = ''1mo'')
             then (let daily = normalize_ohlc_df (safe_history period ''1d'');
                       daily = (if daily = [] then normalize_ohlc_df (safe_download period ''1d'')
                                else daily);
                       daily = (if daily = []
                                then normalize_ohlc_df (fetch_chart_data chart_range ''1d'')
                                else daily)
                   in if daily \<noteq> []
                      then resample_ohlc daily (if interval = ''1wk'' then W_FRI else ME)
                      else hist)
             else hist);
          hist = (if hist = [] then normalize_ohlc_df (fetch_chart_data chart_range interval)
                  else hist)
      in hist)"

section \<open>Properties\<close>

subsection \<open>Double precision\<close>

lemma norm_fl_up:
  assumes "k \<le> n" and "0 < m" and "m * 2 ^ k < 2 ^ 53" and "- 1074 \<le> e - int k"
  shows "norm_fl n m e = norm_fl (n - k) (m * 2 ^ k) (e - int k)"
  using assms
proof (induction k arbitrary: n m e)
  case 0
  then show ?case by simp
next
  case (Suc k)
  from Suc.prems(1) obtain n' where n: "n = Suc n'" by (cases n) auto
  have "m * 2 \<le> m * 2 ^ Suc k"
    using Suc.prems(2) by (intro mult_left_mono) (simp_all add: self_le_power)
  with Suc.prems(3) have small: "m < 2 ^ 52" by simp
  have e: "- 1074 < e" using Suc.prems(4) by simp
  have step: "norm_fl n m e = norm_fl n' (2 * m) (e - 1)"
    using small e by (simp add: n)
  have m2: "2 * m * 2 ^ k = m * 2 ^ Suc k" by simp
  have e2: "e - 1 - int k = e - int (Suc k)" by simp
  have "norm_fl n' (2 * m) (e - 1) = norm_fl (n' - k) (2 * m * 2 ^ k) (e - 1 - int k)"
  proof (rule Suc.IH)
    show "k \<le> n'" using Suc.prems(1) by (simp add: n)
    show "0 < 2 * m" using Suc.prems(2) by simp
    show "2 * m * 2 ^ k < 2 ^ 53" using Suc.prems(3) unfolding m2 .
    show "- 1074 \<le> e - 1 - int k" using Suc.prems(4) unfolding e2 .
  qed
  then have "norm_fl n' (2 * m) (e - 1) = norm_fl (n - Suc k) (m * 2 ^ Suc k) (e - int (Suc k))"
    unfolding m2 e2 by (simp add: n)
  with step show ?case by (simp only:)
qed

lemma norm_fl_stop:
  assumes "2 ^ 52 \<le> m" and "m < 2 ^ 53"
  shows "norm_fl n m e = (m, e)"
  using assms by (cases n) simp_all

text \<open>
  Reading off a rounded value: a positive \<open>x\<close> that \<open>k\<close> doublings bring into
  \<open>[2 ^ 52, 2 ^ 53)\<close> is rounded at the spacing \<open>2 ^ -k\<close>.
\<close>

lemma fl_pos:
  assumes "2 ^ 52 \<le> x * 2 ^ k" and "x * 2 ^ k < 2 ^ 53" and "k \<le> 1074" and "0 < x"
  shows "fl x = of_int (py_round (x * 2 ^ k)) / 2 ^ k"
proof -
  have ax: "\<bar>x\<bar> = x" using assms(4) by simp
  have "norm_fl 2200 x 0 = norm_fl (2200 - k) (x * 2 ^ k) (0 - int k)"
    using assms by (intro norm_fl_up) simp_all
  then have "norm_fl 2200 \<bar>x\<bar> 0 = norm_fl (2200 - k) (x * 2 ^ k) (0 - int k)"
    unfolding ax .
  also have "\<dots> = (x * 2 ^ k, - int k)"
    using norm_fl_stop[OF assms(1,2)] by simp
  finally have "norm_fl 2200 \<bar>x\<bar> 0 = (x * 2 ^ k, - int k)" .
  then show ?thesis
    using assms(4) by (cases "k = 0") (simp_all add: fl_def scale2_def)
qed


lemma fl_minus: "fl (- x) = - fl x"
  by (simp add: fl_def sgn_minus split: prod.splits)

subsection \<open>Ticker candidates\<close>

lemma digit_upper: "is_digit c \<Longrightarrow> upper_char c = c"
  unfolding is_digit_def by (simp, elim disjE; simp add: upper_char_def)

lemma digit_not_space: "is_digit c \<Longrightarrow> \<not> is_space c"
  unfolding is_digit_def by (simp, elim disjE; simp add: is_space_def)

lemma digit_not_AZ: "is_digit c \<Longrightarrow> \<not> is_AZ c"
  unfolding is_digit_def by (simp, elim disjE; simp add: is_AZ_def)

lemma AZ_upper: "is_AZ c \<Longrightarrow> upper_char c = c"
  unfolding is_AZ_def by (simp, elim disjE; simp add: upper_char_def)

lemma AZ_not_space: "is_AZ c \<Longrightarrow> \<not> is_space c"
  unfolding is_AZ_def by (simp, elim disjE; simp add: is_space_def)

lemma AZ_not_digit: "is_AZ c \<Longrightarrow> \<not> is_digit c"
  using digit_not_AZ by blast

lemma az_upper: "is_az c \<Longrightarrow> is_AZ (upper_char c)"
  unfolding is_az_def by (simp, elim disjE; simp add: upper_char_def is_AZ_def)

lemma az_not_space: "is_az c \<Longrightarrow> \<not> is_space c"
  unfolding is_az_def by (simp, elim disjE; simp add: is_space_def)

lemma not_class [simp]:
  "\<not> is_digit CHR '' ''" "\<not> is_digit CHR ''.''" "\<not> is_AZ CHR '' ''" "\<not> is_AZ CHR ''.''"
  by (simp_all add: is_digit_def is_AZ_def)

lemma letter_upper: "is_AZ c \<or> is_az c \<Longrightarrow> is_AZ (upper_char c)"
  using AZ_upper az_upper by metis

lemma letter_not_space: "is_AZ c \<or> is_az c \<Longrightarrow> \<not> is_space c"
  using AZ_not_space az_not_space by metis

lemma takeWhile_none: "\<forall>x \<in> set ys. \<not> P x \<Longrightarrow> takeWhile P ys = []"
  by (cases ys) auto

lemma dropWhile_none: "\<forall>x \<in> set ys. \<not> P x \<Longrightarrow> dropWhile P ys = ys"
  by (cases ys) auto

lemma strip_id:
  assumes "s \<noteq> []" and "\<not> is_space (hd s)" and "\<not> is_space (last s)"
  shows "strip s = s"
proof -
  have "dropWhile is_space s = s"
    using assms(1,2) by (cases s) auto
  moreover have "dropWhile is_space (rev s) = rev s"
    using assms(1,3) by (cases "rev s") (auto simp: last_rev [symmetric] hd_rev)
  ultimately show ?thesis by (simp add: strip_def)
qed

lemma raw_up_digits_letters:
  assumes "ds \<noteq> []" and "list_all is_digit ds"
    and "ls \<noteq> []" and "list_all (\<lambda>c. is_AZ c \<or> is_az c) ls"
  shows "replace_char CHR '' '' (upper (strip (ds @ ls))) = ds @ upper ls"
    and "list_all is_AZ (upper ls)"
proof -
  have "\<not> is_space (hd (ds @ ls))"
    using assms(1,2) by (cases ds) (auto simp: digit_not_space)
  moreover have "\<not> is_space (last (ds @ ls))"
    using assms(3,4) letter_not_space[of "last ls"] by (auto simp: list_all_iff)
  ultimately have st: "strip (ds @ ls) = ds @ ls"
    using assms(1) by (intro strip_id) auto
  have ud: "upper ds = ds"
    using assms(2) by (auto simp: upper_def list_all_iff digit_upper intro: map_idI)
  show az: "list_all is_AZ (upper ls)"
    using assms(4) by (auto simp: upper_def list_all_iff letter_upper)
  have "\<forall>c \<in> set (ds @ upper ls). c \<noteq> CHR '' ''"
    using assms(2) az by (auto simp: list_all_iff)
  then have "replace_char CHR '' '' (ds @ upper ls) = ds @ upper ls"
    unfolding replace_char_def by (simp only: filter_id_conv) 
  with st ud show "replace_char CHR '' '' (upper (strip (ds @ ls))) = ds @ upper ls"
    by (simp add: upper_def)
qed

lemma split_digits_letters:
  assumes "list_all is_digit ds" and "list_all is_AZ us"
  shows "takeWhile is_digit (ds @ us) = ds" "dropWhile is_digit (ds @ us) = us"
    "takeWhile is_AZ us = us" "dropWhile is_AZ us = []"
proof -
  have nd: "\<forall>x \<in> set us. \<not> is_digit x"
    using assms(2) by (auto simp: list_all_iff AZ_not_digit)
  have d: "\<forall>x \<in> set ds. is_digit x" using assms(1) by (simp add: list_all_iff)
  show "takeWhile is_digit (ds @ us) = ds"
    using d takeWhile_none[OF nd] by simp
  show "dropWhile is_digit (ds @ us) = us"
    using d dropWhile_none[OF nd] by simp
  show "takeWhile is_AZ us = us" "dropWhile is_AZ us = []"
    using assms(2) by (simp_all add: list_all_iff)
qed

text \<open>The candidate list never holds a symbol twice.\<close>

lemma ticker_candidates_distinct: "distinct (ticker_candidates raw)"
  by (simp add: ticker_candidates_def Let_def)

text \<open>
  Claim C3, as the code has it. For an input that is a run of digits followed by one to six
  ASCII letters, the candidates are, in this order, the uppercased input with the regional
  suffix \<^verbatim>\<open>.MI\<close>, the uppercased input, and the uppercased letters without the digits; the
  three are distinct.
\<close>

theorem ticker_candidates_digits_letters:
  assumes "ds \<noteq> []" and "list_all is_digit ds"
    and "1 \<le> length ls" and "length ls \<le> 6" and "list_all (\<lambda>c. is_AZ c \<or> is_az c) ls"
  shows "ticker_candidates (ds @ ls) = [ds @ upper ls @ ''.MI'', ds @ upper ls, upper ls]
       \<and> distinct (ticker_candidates (ds @ ls))"
proof -
  let ?us = "upper ls"
  let ?t = "ds @ ?us"
  have lne: "ls \<noteq> []" using assms(3) by auto
  note ru = raw_up_digits_letters[OF assms(1,2) lne assms(5)]
  note sp = split_digits_letters[OF assms(2) ru(2)]
  have len: "1 \<le> length ?us" "length ?us \<le> 6"
    using assms(3,4) by (simp_all add: upper_def)
  have nodot: "CHR ''.'' \<notin> set ?t"
    using assms(2) ru(2) by (auto simp: list_all_iff)
  have m1: "match_digits_letters ?t"
    unfolding match_digits_letters_def Let_def sp re_end_def
    using len assms(1) by simp
  have m2: "match_digits_letters_suffix ?t"
    unfolding match_digits_letters_suffix_def Let_def sp re_end_def
    using len assms(1) by simp
  have tne: "?t \<noteq> []" using assms(1) by simp
  have uu: "upper ?us = ?us"
    using ru(2) by (auto simp: upper_def list_all_iff AZ_upper intro: map_idI)
  have la: "list_all (\<lambda>c. is_AZ c \<or> is_az c) ?us"
    using ru(2) by (simp add: list_all_iff)
  have une: "?us \<noteq> []" using lne by (simp add: upper_def)
  from raw_up_digits_letters(1)[OF assms(1,2) une la]
  have clean: "replace_char CHR '' '' (upper (strip ?t)) = ?t"
    unfolding uu .
  have norm: "normalize_ticker ?t = ?us"
    unfolding normalize_ticker_def clean Let_def
    using tne m2 by (simp add: sp(2))
  have d1: "?t \<noteq> ?t @ ''.MI''" by simp
  have d2: "?us \<noteq> ?t" using assms(1) by simp
  have d3: "?us \<noteq> ?t @ ''.MI''"
  proof
    assume "?us = ?t @ ''.MI''"
    then have "length ?us = length (?t @ ''.MI'')" by (rule arg_cong)
    then show False by simp
  qed
  have "ticker_candidates (ds @ ls) = [?t @ ''.MI'', ?t, ?us]"
    unfolding ticker_candidates_def ru(1) norm Let_def
    using tne nodot m1 une d1 d2 d3 by simp
  then show ?thesis using d1 d2 d3 by auto
qed

theorem ticker_candidates_digits_letters_witness:
  "''1'' \<noteq> [] \<and> list_all is_digit ''1'' \<and> 1 \<le> length ''intc'' \<and> length ''intc'' \<le> 6
   \<and> list_all (\<lambda>c. is_AZ c \<or> is_az c) ''intc''
   \<and> ticker_candidates ''1intc'' = [''1INTC.MI'', ''1INTC'', ''INTC'']"
  using ticker_candidates_digits_letters [of "''1''" "''intc''"]
  by (simp add: is_digit_def is_az_def is_AZ_def upper_def upper_char_def)

text \<open>
  With more than six letters neither regular expression matches: the only candidate is the
  uppercased input, with no regional suffix and with its digits.
\<close>

theorem ticker_candidates_long_letters_counterexample:
  "ticker_candidates ''1ABCDEFG'' = [''1ABCDEFG'']"
  by (simp add: ticker_candidates_def normalize_ticker_def match_digits_letters_def
      match_digits_letters_suffix_def Let_def strip_def is_space_def upper_def upper_char_def
      replace_char_def is_digit_def is_AZ_def re_end_def)

subsection \<open>Cache bound, eviction and expiry\<close>

lemma dict_set_keys: "fst ` set (dict_set d k v) = insert k (fst ` set d)"
  by (force simp: dict_set_def split: if_splits)

lemma dict_set_map_fst:
  "map fst (dict_set d k v) = (if k \<in> fst ` set d then map fst d else map fst d @ [k])"
proof -
  have "map fst (map (\<lambda>(k', x). if k' = k then (k', v) else (k', x)) d) = map fst d"
    by (induction d) auto
  then show ?thesis by (simp add: dict_set_def)
qed

lemma dict_set_distinct:
  assumes "distinct (map fst d)"
  shows "distinct (map fst (dict_set d k v))"
  using assms by (simp add: dict_set_map_fst)

lemma dict_set_length:
  "length (dict_set d k v) = (if k \<in> fst ` set d then length d else Suc (length d))"
  by (simp add: dict_set_def)

lemma dict_del_distinct: "distinct (map fst d) \<Longrightarrow> distinct (map fst (dict_del d k))"
  by (simp add: dict_del_def distinct_map_filter)

lemma dict_del_keys: "fst ` set (dict_del d k) = fst ` set d - {k}"
  by (force simp: dict_del_def)

lemma dict_del_length:
  "distinct (map fst d) \<Longrightarrow> k \<in> fst ` set d \<Longrightarrow> Suc (length (dict_del d k)) = length d"
proof (induction d)
  case Nil
  then show ?case by simp
next
  case (Cons a d)
  show ?case
  proof (cases "fst a = k")
    case True
    with Cons.prems have "k \<notin> fst ` set d" by auto
    then have "filter (\<lambda>(k', x). k' \<noteq> k) d = d"
      by (force simp: filter_id_conv)
    with True show ?thesis by (simp add: dict_del_def case_prod_beta)
  next
    case False
    with Cons show ?thesis by (auto simp: dict_del_def case_prod_beta)
  qed
qed

lemma oldest_mem: "oldest b es \<in> set (b # es)"
  by (induction b es rule: oldest.induct) auto

lemma oldest_le: "snd (snd (oldest b es)) \<le> snd (snd b)"
  by (induction b es rule: oldest.induct) (auto split: if_splits)

lemma oldest_min: "e \<in> set (b # es) \<Longrightarrow> snd (snd (oldest b es)) \<le> snd (snd e)"
proof (induction b es rule: oldest.induct)
  case (1 best)
  then show ?case by simp
next
  case (2 best x xs)
  then show ?case
    using oldest_le[of x xs] oldest_le[of best xs] by (auto split: if_splits)
qed

lemma cache_set_cases:
  "cache_set c k p now m = dict_set c k (p, now)
   \<or> (\<exists>ko. cache_set c k p now m = dict_del (dict_set c k (p, now)) ko)"
  by (cases "dict_set c k (p, now)") (auto simp: cache_set_def Let_def)

lemma cache_set_distinct:
  assumes "distinct (map fst c)"
  shows "distinct (map fst (cache_set c k p now m))"
  using cache_set_cases[of c k p now m] dict_set_distinct[OF assms, of k "(p, now)"]
  by (auto simp: dict_del_distinct)

lemma cache_set_evicts:
  assumes "distinct (map fst c)" and "m < int (length (dict_set c k (p, now)))"
  shows "\<exists>e. e \<in> set (dict_set c k (p, now))
           \<and> (\<forall>e' \<in> set (dict_set c k (p, now)). snd (snd e) \<le> snd (snd e'))
           \<and> cache_set c k p now m = dict_del (dict_set c k (p, now)) (fst e)
           \<and> Suc (length (cache_set c k p now m)) = length (dict_set c k (p, now))"
proof -
  let ?c = "dict_set c k (p, now)"
  have "?c \<noteq> []" using dict_set_keys[of c k "(p, now)"] by auto
  then obtain e es where ces: "?c = e # es" by (cases ?c) auto
  let ?o = "oldest e es"
  have mem: "?o \<in> set ?c" using oldest_mem[of e es] ces by simp
  have min: "\<forall>e' \<in> set ?c. snd (snd ?o) \<le> snd (snd e')"
    using oldest_min[of _ e es] ces by simp
  have eq: "cache_set c k p now m = dict_del ?c (fst ?o)"
    using assms(2) ces by (simp add: cache_set_def Let_def)
  have "fst ?o \<in> fst ` set ?c" using mem by (rule imageI)
  with dict_del_length[OF dict_set_distinct[OF assms(1)], of "fst ?o" k "(p, now)"]
  have "Suc (length (dict_del ?c (fst ?o))) = length ?c" by simp
  with mem min eq show ?thesis by metis
qed

lemma cache_set_bound:
  assumes "distinct (map fst c)" and "int (length c) \<le> m"
  shows "int (length (cache_set c k p now m)) \<le> m"
proof (cases "m < int (length (dict_set c k (p, now)))")
  case True
  from cache_set_evicts[OF assms(1) True]
  have "Suc (length (cache_set c k p now m)) = length (dict_set c k (p, now))" by blast
  with assms(2) show ?thesis by (simp add: dict_set_length split: if_splits)
next
  case False
  then show ?thesis by (simp add: cache_set_def Let_def)
qed

lemma cache_sets_inv:
  "distinct (map fst c) \<Longrightarrow> int (length c) \<le> m \<Longrightarrow>
     distinct (map fst (cache_sets m ops c)) \<and> int (length (cache_sets m ops c)) \<le> m"
proof (induction ops arbitrary: c)
  case Nil
  then show ?case by (simp add: cache_sets_def)
next
  case (Cons op ops)
  obtain k p now where op: "op = (k, p, now)" by (cases op)
  have "cache_sets m (op # ops) c = cache_sets m ops (cache_set c k p now m)"
    by (simp add: cache_sets_def op)
  with Cons.IH[OF cache_set_distinct[OF Cons.prems(1)] cache_set_bound[OF Cons.prems]]
  show ?case by simp
qed



lemma cache_set_keys_subset: "fst ` set (cache_set c k p now m) \<subseteq> insert k (fst ` set c)"
proof -
  from cache_set_cases[of c k p now m] consider
      (kept) "cache_set c k p now m = dict_set c k (p, now)"
    | (evicted) ko where "cache_set c k p now m = dict_del (dict_set c k (p, now)) ko"
    by blast
  then show ?thesis
  proof cases
    case kept
    then show ?thesis by (simp add: dict_set_keys)
  next
    case evicted
    have "fst ` set (dict_del (dict_set c k (p, now)) ko) \<subseteq> insert k (fst ` set c)"
      unfolding dict_del_keys dict_set_keys by blast
    with evicted show ?thesis by simp
  qed
qed

lemma cache_set_new_length:
  assumes "distinct (map fst c)" and "k \<notin> fst ` set c" and "int (length c) \<le> m"
  shows "int (length (cache_set c k p now m)) = min m (int (length c) + 1)"
proof -
  have len: "length (dict_set c k (p, now)) = Suc (length c)"
    using assms(2) by (simp add: dict_set_length)
  show ?thesis
  proof (cases "m < int (length (dict_set c k (p, now)))")
    case True
    from cache_set_evicts[OF assms(1) True]
    have "Suc (length (cache_set c k p now m)) = length (dict_set c k (p, now))" by blast
    with len True assms(3) show ?thesis by simp
  next
    case False
    then have "cache_set c k p now m = dict_set c k (p, now)"
      by (simp add: cache_set_def Let_def)
    with len False show ?thesis by simp
  qed
qed

lemma cache_sets_fresh_length:
  assumes "distinct (map fst c)" and "int (length c) \<le> m"
    and "distinct (map fst ops)" and "fst ` set ops \<inter> fst ` set c = {}"
  shows "int (length (cache_sets m ops c)) = min m (int (length c) + int (length ops))"
  using assms
proof (induction ops arbitrary: c)
  case Nil
  then show ?case by (simp add: cache_sets_def)
next
  case (Cons op ops)
  obtain k p now where op: "op = (k, p, now)" by (cases op)
  let ?c = "cache_set c k p now m"
  have step: "cache_sets m (op # ops) c = cache_sets m ops ?c"
    by (simp add: cache_sets_def op)
  have fresh: "k \<notin> fst ` set c" using Cons.prems(4) by (auto simp: op)
  have len: "int (length ?c) = min m (int (length c) + 1)"
    by (rule cache_set_new_length[OF Cons.prems(1) fresh Cons.prems(2)])
  have d: "distinct (map fst ?c)" by (rule cache_set_distinct[OF Cons.prems(1)])
  have b: "int (length ?c) \<le> m" using len by simp
  have k_new: "k \<notin> fst ` set ops"
    using Cons.prems(3) by (simp add: op)
  have "insert k (fst ` set ops) \<inter> fst ` set c = {}"
    using Cons.prems(4) by (simp add: op)
  with k_new cache_set_keys_subset[of c k p now m]
  have "fst ` set ops \<inter> fst ` set ?c = {}"
    by blast
  moreover have "distinct (map fst ops)" using Cons.prems(3) by simp
  ultimately have "int (length (cache_sets m ops ?c)) = min m (int (length ?c) + int (length ops))"
    using Cons.IH[OF d b] by blast
  with len show ?case unfolding step by simp
qed

lemma dict_del_map_of: "map_of (dict_del d k) k = None"
  by (induction d) (auto simp: dict_del_def)

lemma cache_get_stale:
  assumes "map_of c k = Some (payload, ts)" and "ttl \<le> now - ts"
  shows "cache_get c k ttl now = (None, dict_del c k)"
  using assms by (simp add: cache_get_def)

text \<open>
  Claim C2. Starting from an empty cache, after every run of \<open>cache_set\<close> calls with one
  bound the cache holds at most the bound many entries, and exactly the bound many once
  at least that many distinct keys were set. When a \<open>cache_set\<close> overflows the bound, the
  entry it removes has the smallest timestamp of all entries. A \<open>cache_get\<close> of an entry
  whose age has reached the TTL is a miss and removes the entry.
\<close>

theorem cache_bound_eviction_expiry:
  "(0 \<le> max_size \<longrightarrow> int (length (cache_sets max_size ops [])) \<le> max_size)
   \<and> (0 \<le> max_size \<and> distinct (map fst ops) \<and> max_size \<le> int (length ops)
        \<longrightarrow> int (length (cache_sets max_size ops [])) = max_size)
   \<and> (distinct (map fst c) \<and> max_size < int (length (dict_set c k (p, now)))
        \<longrightarrow> (\<exists>e. e \<in> set (dict_set c k (p, now))
               \<and> (\<forall>e' \<in> set (dict_set c k (p, now)). snd (snd e) \<le> snd (snd e'))
               \<and> cache_set c k p now max_size = dict_del (dict_set c k (p, now)) (fst e)))
   \<and> (map_of d key = Some (payload, ts) \<and> ttl \<le> t - ts
        \<longrightarrow> cache_get d key ttl t = (None, dict_del d key) \<and> map_of (dict_del d key) key = None)"
proof (intro conjI impI)
  assume "0 \<le> max_size"
  then show "int (length (cache_sets max_size ops [])) \<le> max_size"
    using cache_sets_inv[of "[]" max_size ops] by simp
next
  assume a: "0 \<le> max_size \<and> distinct (map fst ops) \<and> max_size \<le> int (length ops)"
  then have "int (length (cache_sets max_size ops []))
      = min max_size (int (length ([] :: ('a, 'b) cache)) + int (length ops))"
    by (intro cache_sets_fresh_length) simp_all
  with a show "int (length (cache_sets max_size ops [])) = max_size" by simp
next
  assume "distinct (map fst c) \<and> max_size < int (length (dict_set c k (p, now)))"
  then show "\<exists>e. e \<in> set (dict_set c k (p, now))
               \<and> (\<forall>e' \<in> set (dict_set c k (p, now)). snd (snd e) \<le> snd (snd e'))
               \<and> cache_set c k p now max_size = dict_del (dict_set c k (p, now)) (fst e)"
    using cache_set_evicts[of c max_size k p now] by blast
next
  assume "map_of d key = Some (payload, ts) \<and> ttl \<le> t - ts"
  then show "cache_get d key ttl t = (None, dict_del d key)"
    by (simp add: cache_get_stale)
next
  show "map_of (dict_del d key) key = None" by (rule dict_del_map_of)
qed

theorem cache_bound_eviction_expiry_witness:
  "(0::int) \<le> 2
   \<and> int (length (cache_sets 2 [(''a'', 1::nat, 10), (''b'', 2, 5), (''c'', 3, 20)] [])) \<le> 2
   \<and> distinct (map fst [(''a'', 1::nat, 10::int), (''b'', 2, 5), (''c'', 3, 20)])
   \<and> 2 \<le> int (length [(''a'', 1::nat, 10::int), (''b'', 2, 5), (''c'', 3, 20)])
   \<and> int (length (cache_sets 2 [(''a'', 1::nat, 10), (''b'', 2, 5), (''c'', 3, 20)] [])) = 2
   \<and> distinct (map fst [(''a'', 1::nat, 10::int), (''b'', 2, 5)])
   \<and> 2 < int (length (dict_set [(''a'', 1::nat, 10::int), (''b'', 2, 5)] ''c'' (3, 20)))
   \<and> cache_set [(''a'', 1::nat, 10), (''b'', 2, 5)] ''c'' 3 20 2 = [(''a'', 1, 10), (''c'', 3, 20)]
   \<and> map_of [(''a'', 1::nat, 10::int), (''b'', 2, 5)] ''b'' = Some (2, 5)
   \<and> (100::int) \<le> 105 - 5
   \<and> cache_get [(''a'', 1::nat, 10), (''b'', 2, 5)] ''b'' 100 105 = (None, [(''a'', 1, 10)])"
proof -
  note inst = cache_bound_eviction_expiry
    [of 2 "[(''a'', 1::nat, 10), (''b'', 2, 5), (''c'', 3, 20)]"
        "[(''a'', 1::nat, 10), (''b'', 2, 5)]" "''c''" 3 20
        "[(''a'', 1::nat, 10), (''b'', 2, 5)]" "''b''" 2 5 100 105]
  have ops: "distinct (map fst [(''a'', 1::nat, 10::int), (''b'', 2, 5), (''c'', 3, 20)])"
    by simp
  have size: "int (length (cache_sets 2 [(''a'', 1::nat, 10), (''b'', 2, 5), (''c'', 3, 20)] [])) = 2"
    using inst ops by simp
  have over: "2 < int (length (dict_set [(''a'', 1::nat, 10::int), (''b'', 2, 5)] ''c'' (3, 20)))"
    by (simp add: dict_set_def)
  have evict: "cache_set [(''a'', 1::nat, 10), (''b'', 2, 5)] ''c'' 3 20 2
      = [(''a'', 1, 10), (''c'', 3, 20)]"
    by (simp add: cache_set_def dict_set_def dict_del_def)
  have stale: "cache_get [(''a'', 1::nat, 10), (''b'', 2, 5)] ''b'' 100 105
      = (None, [(''a'', 1, 10)])"
    using inst by (simp add: dict_del_def)
  show ?thesis
    using size over evict stale by simp
qed

subsection \<open>Merging fundamentals\<close>

lemma merge_item_cases:
  "merge_item pf ps (k0, v0) t = t
   \<or> (dict_get t k0 = PNone \<and> v0 \<noteq> PNone
       \<and> (\<exists>x. coerce pf ps k0 v0 = Some x \<and> x \<noteq> PNone \<and> merge_item pf ps (k0, v0) t = t(k0 \<mapsto> x)))"
  by (auto simp: merge_item_def coerce_def split: option.splits)

lemma fold_merge_item_frame:
  "fold (merge_item pf ps) items t k = t k
   \<or> (dict_get t k = PNone
       \<and> (\<exists>v x. (k, v) \<in> set items \<and> v \<noteq> PNone \<and> coerce pf ps k v = Some x
             \<and> fold (merge_item pf ps) items t k = Some x))"
proof (induction items arbitrary: t)
  case Nil
  then show ?case by simp
next
  case (Cons kv items)
  obtain k0 v0 where kv: "kv = (k0, v0)" by (cases kv)
  let ?t1 = "merge_item pf ps (k0, v0) t"
  have fold_eq: "fold (merge_item pf ps) (kv # items) t = fold (merge_item pf ps) items ?t1"
    by (simp add: kv)
  from merge_item_cases[of pf ps k0 v0 t] consider
      (same) "?t1 = t"
    | (set) x where "dict_get t k0 = PNone" "v0 \<noteq> PNone" "coerce pf ps k0 v0 = Some x"
        "x \<noteq> PNone" "?t1 = t(k0 \<mapsto> x)"
    by blast
  then show ?case
  proof cases
    case same
    with Cons.IH[of t] show ?thesis
      unfolding fold_eq by (auto simp: kv)
  next
    case set
    show ?thesis
    proof (cases "k = k0")
      case True
      have "dict_get ?t1 k \<noteq> PNone"
        using set True by (simp add: dict_get_def)
      with Cons.IH[of ?t1] have "fold (merge_item pf ps) items ?t1 k = ?t1 k"
        by blast
      then show ?thesis
        unfolding fold_eq using set True by (auto simp: kv)
    next
      case False
      then have "?t1 k = t k" "dict_get ?t1 k = dict_get t k"
        using set by (simp_all add: dict_get_def)
      with Cons.IH[of ?t1] show ?thesis
        unfolding fold_eq by (auto simp: kv)
    qed
  qed
qed

text \<open>
  Claim C8. A field whose value in the accumulator is not null keeps that value; and a
  field whose value changes was null in the accumulator and now holds the coerced value
  of a non-null entry of the source for that field.
\<close>

theorem merge_missing_info_fills_only_nulls:
  "(dict_get target k \<noteq> PNone \<longrightarrow> merge_missing_info pf ps target source k = target k)
   \<and> (merge_missing_info pf ps target source k \<noteq> target k \<longrightarrow>
        dict_get target k = PNone
        \<and> (\<exists>items v x. source = PDict items \<and> (k, v) \<in> set items \<and> v \<noteq> PNone
              \<and> coerce pf ps k v = Some x
              \<and> merge_missing_info pf ps target source k = Some x))"
proof (cases source)
  case (PDict items)
  with fold_merge_item_frame[of pf ps items target k] show ?thesis
    by (auto simp: merge_missing_info_def)
qed (simp_all add: merge_missing_info_def)

theorem merge_missing_info_fills_only_nulls_witness:
  "dict_get [''beta'' \<mapsto> PNum 1] ''beta'' \<noteq> PNone
   \<and> merge_missing_info (\<lambda>s. if s = ''1.5'' then Some (3 / 2) else None) (\<lambda>v. [])
        [''beta'' \<mapsto> PNum 1]
        (PDict [(''beta'', PNum 2), (''marketCap'', PStr ''1.5B''), (''sector'', PStr '' Tech '')])
        ''beta'' = Some (PNum 1)
   \<and> merge_missing_info (\<lambda>s. if s = ''1.5'' then Some (3 / 2) else None) (\<lambda>v. [])
        [''beta'' \<mapsto> PNum 1]
        (PDict [(''beta'', PNum 2), (''marketCap'', PStr ''1.5B''), (''sector'', PStr '' Tech '')])
        ''marketCap'' \<noteq> [''beta'' \<mapsto> PNum 1] ''marketCap''
   \<and> dict_get [''beta'' \<mapsto> PNum 1] ''marketCap'' = PNone
   \<and> merge_missing_info (\<lambda>s. if s = ''1.5'' then Some (3 / 2) else None) (\<lambda>v. [])
        [''beta'' \<mapsto> PNum 1]
        (PDict [(''beta'', PNum 2), (''marketCap'', PStr ''1.5B''), (''sector'', PStr '' Tech '')])
        ''marketCap'' = Some (PNum 1500000000)"
proof -
  let ?pf = "\<lambda>s. if s = ''1.5'' then Some (3 / 2 :: real) else None"
  let ?ps = "\<lambda>v :: pyval. [] :: string"
  let ?target = "[''beta'' \<mapsto> PNum 1]"
  let ?source = "PDict [(''beta'', PNum 2), (''marketCap'', PStr ''1.5B''),
                        (''sector'', PStr '' Tech '')]"
  have set: "dict_get ?target ''beta'' \<noteq> PNone"
    by (simp add: dict_get_def)
  from merge_missing_info_fills_only_nulls[of ?target "''beta''" ?pf ?ps ?source] set
  have kept: "merge_missing_info ?pf ?ps ?target ?source ''beta'' = Some (PNum 1)"
    by simp
  have filled: "merge_missing_info ?pf ?ps ?target ?source ''marketCap'' = Some (PNum 1500000000)"
    by (simp add: merge_missing_info_def merge_item_def dict_get_def text_keys_def
        strip_def is_space_def replace_char_def upper_def upper_char_def na_tokens_def
        suffix_mult_def to_text_def Let_def)
  then have changed: "merge_missing_info ?pf ?ps ?target ?source ''marketCap''
      \<noteq> ?target ''marketCap''"
    by simp
  from merge_missing_info_fills_only_nulls[of ?target "''marketCap''" ?pf ?ps ?source] changed
  have null: "dict_get ?target ''marketCap'' = PNone"
    by blast
  show ?thesis
    by (intro conjI set kept changed null filled)
qed

subsection \<open>Risk index\<close>



subsection \<open>Seasonality curves\<close>





subsection \<open>Merging close zones\<close>

lemma fsub_swap: "\<bar>fsub a b\<bar> = \<bar>fsub b a\<bar>"
proof -
  have "fl (a - b) = - fl (b - a)" using fl_minus[of "b - a"] by simp
  then show ?thesis by (simp add: fsub_def)
qed

lemma fadd_commute: "fadd a b = fadd b a"
  by (simp add: fadd_def add.commute)

lemma merge_list_pair:
  assumes "\<bar>fsub (price a) (price b)\<bar> \<le> fmul (min (price a) (price b)) (fdiv g 100)"
  shows "merge_list g [a, b] =
           [\<lparr>price = round2_f (fdiv (fadd (price a) (price b)) 2),
             zone_min = round2_f (min (zone_min a) (zone_min b)),
             zone_max = round2_f (max (zone_max a) (zone_max b))\<rparr>]"
proof (cases "price a \<le> price b")
  case True
  with assms have "\<bar>fsub (price b) (price a)\<bar> \<le> fmul (price a) (fdiv g 100)"
    by (simp add: fsub_swap[of "price a" "price b"])
  with True show ?thesis
    by (simp add: merge_list_def merge_step_def Let_def)
next
  case False
  with assms have "\<bar>fsub (price a) (price b)\<bar> \<le> fmul (price b) (fdiv g 100)"
    by (simp add: min_def)
  with False show ?thesis
    by (simp add: merge_list_def merge_step_def Let_def min.commute max.commute
        fadd_commute[of "price b" "price a"])
qed

text \<open>
  Claim C7, as the code has it. Two zones on one side are merged into exactly one zone
  when the gap percentage is positive and the absolute difference of their prices,
  computed in doubles, is at most the lower price times the gap percentage over 100,
  computed in doubles. The merged price is the double mean of the two prices rounded to
  two decimals by Python's \<^verbatim>\<open>round\<close>; the lower bound is the smaller of the two lower bounds
  and the upper bound the larger of the two upper bounds, both rounded to two decimals.
  Prices and gap percentage are finite and below \<open>10 ^ 100\<close>, so that no operation
  overflows.
\<close>

theorem merge_close_zones_pair:
  assumes "0 < g" and "g \<le> 10 ^ 100"
    and "\<bar>price a\<bar> \<le> 10 ^ 100" and "\<bar>price b\<bar> \<le> 10 ^ 100"
    and "\<bar>fsub (price a) (price b)\<bar> \<le> fmul (min (price a) (price b)) (fdiv g 100)"
  shows "support (merge_close_zones \<lparr>support = [a, b], resistance = rs\<rparr> g) =
           [\<lparr>price = round2_f (fdiv (fadd (price a) (price b)) 2),
             zone_min = round2_f (min (zone_min a) (zone_min b)),
             zone_max = round2_f (max (zone_max a) (zone_max b))\<rparr>]
       \<and> resistance (merge_close_zones \<lparr>support = ss, resistance = [a, b]\<rparr> g) =
           [\<lparr>price = round2_f (fdiv (fadd (price a) (price b)) 2),
             zone_min = round2_f (min (zone_min a) (zone_min b)),
             zone_max = round2_f (max (zone_max a) (zone_max b))\<rparr>]"
  using assms(1,5) by (simp add: merge_close_zones_def merge_list_pair)

theorem merge_close_zones_pair_witness:
  "(0::real) < 1 \<and> (1::real) \<le> 10 ^ 100
   \<and> \<bar>price \<lparr>price = 100, zone_min = 99, zone_max = 101\<rparr>\<bar> \<le> 10 ^ 100
   \<and> \<bar>price \<lparr>price = 201 / 2, zone_min = 100, zone_max = 102\<rparr>\<bar> \<le> 10 ^ 100
   \<and> \<bar>fsub (price \<lparr>price = 100, zone_min = 99, zone_max = 101\<rparr>)
            (price \<lparr>price = 201 / 2, zone_min = 100, zone_max = 102\<rparr>)\<bar>
       \<le> fmul (min (price \<lparr>price = 100, zone_min = 99, zone_max = 101\<rparr>)
                   (price \<lparr>price = 201 / 2, zone_min = 100, zone_max = 102\<rparr>)) (fdiv 1 100)
   \<and> support (merge_close_zones
        \<lparr>support = [\<lparr>price = 100, zone_min = 99, zone_max = 101\<rparr>,
                    \<lparr>price = 201 / 2, zone_min = 100, zone_max = 102\<rparr>],
         resistance = []\<rparr> 1)
      = [\<lparr>price = 401 / 4, zone_min = 99, zone_max = 102\<rparr>]"
proof -
  have w1: "fl (1 / 2) = 1 / 2"
    using fl_pos[of "1 / 2" 53] by (simp add: py_round_def)
  have w2: "fl (1 / 100) = 5764607523034235 / 576460752303423488"
    using fl_pos[of "1 / 100" 59] by (simp add: py_round_def)
  have w3: "fl (144115188075855875 / 144115188075855872) = 1"
    using fl_pos[of "144115188075855875 / 144115188075855872" 52] by (simp add: py_round_def)
  have w4: "fl (401 / 2) = 401 / 2"
    using fl_pos[of "401 / 2" 45] by (simp add: py_round_def)
  have w5: "fl (401 / 4) = 401 / 4"
    using fl_pos[of "401 / 4" 46] by (simp add: py_round_def)
  have w6: "fl (99) = 99"
    using fl_pos[of "99" 46] by (simp add: py_round_def)
  have w7: "fl (102) = 102"
    using fl_pos[of "102" 46] by (simp add: py_round_def)
  have gap: "\<bar>fsub (price \<lparr>price = 100, zone_min = 99, zone_max = 101\<rparr>)
            (price \<lparr>price = 201 / 2, zone_min = 100, zone_max = 102\<rparr>)\<bar>
       \<le> fmul (min (price \<lparr>price = 100, zone_min = 99, zone_max = 101\<rparr>)
                   (price \<lparr>price = 201 / 2, zone_min = 100, zone_max = 102\<rparr>)) (fdiv 1 100)"
    by (simp add: fsub_def fmul_def fdiv_def fl_minus w1 w2 w3 w4 w5 w6 w7)
  have bound: "\<bar>price \<lparr>price = 100, zone_min = 99, zone_max = 101\<rparr>\<bar> \<le> 10 ^ 100"
    "\<bar>price \<lparr>price = 201 / 2, zone_min = 100, zone_max = 102\<rparr>\<bar> \<le> 10 ^ 100"
    "(1::real) \<le> 10 ^ 100"
    by simp_all
  from merge_close_zones_pair[OF _ bound(3) bound(1,2) gap, of "[]" "[]"]
  have "support (merge_close_zones
        \<lparr>support = [\<lparr>price = 100, zone_min = 99, zone_max = 101\<rparr>,
                    \<lparr>price = 201 / 2, zone_min = 100, zone_max = 102\<rparr>],
         resistance = []\<rparr> 1)
      = [\<lparr>price = 401 / 4, zone_min = 99, zone_max = 102\<rparr>]"
    by (simp add: round2_f_def fadd_def fdiv_def py_round_def w1 w2 w3 w4 w5 w6 w7)
  with gap bound show ?thesis by simp
qed

text \<open>
  The merged price is not the arithmetic mean of the two prices: the zones at 100.00 and
  100.25 pass the gap test at 0.6 percent and merge into one zone whose price is the
  double nearest to 100.12, while their mean is 100.125.
\<close>

theorem merge_close_zones_mean_counterexample:
  "support (merge_close_zones
      \<lparr>support = [\<lparr>price = 100, zone_min = 399 / 4, zone_max = 401 / 4\<rparr>,
                  \<lparr>price = 401 / 4, zone_min = 100, zone_max = 201 / 2\<rparr>],
       resistance = []\<rparr> (fl (6 / 10)))
     = [\<lparr>price = 880664833383465 / 8796093022208, zone_min = 399 / 4, zone_max = 201 / 2\<rparr>]
   \<and> (880664833383465 / 8796093022208 :: real) \<noteq> (100 + 401 / 4) / 2"
proof -
  have c1: "fl (3 / 5) = 5404319552844595 / 9007199254740992"
    using fl_pos[of "3 / 5" 53] by (simp add: py_round_def)
  have c2: "fl (1 / 4) = 1 / 4"
    using fl_pos[of "1 / 4" 54] by (simp add: py_round_def)
  have c3: "fl (1080863910568919 / 180143985094819840) = 3458764513820541 / 576460752303423488"
    using fl_pos[of "1080863910568919 / 180143985094819840" 60] by (simp add: py_round_def)
  have c4: "fl (86469112845513525 / 144115188075855872) = 5404319552844595 / 9007199254740992"
    using fl_pos[of "86469112845513525 / 144115188075855872" 53] by (simp add: py_round_def)
  have c5: "fl (801 / 4) = 801 / 4"
    using fl_pos[of "801 / 4" 45] by (simp add: py_round_def)
  have c6: "fl (801 / 8) = 801 / 8"
    using fl_pos[of "801 / 8" 46] by (simp add: py_round_def)
  have c7: "fl (2503 / 25) = 880664833383465 / 8796093022208"
    using fl_pos[of "2503 / 25" 46] by (simp add: py_round_def)
  have c8: "fl (399 / 4) = 399 / 4"
    using fl_pos[of "399 / 4" 46] by (simp add: py_round_def)
  have c9: "fl (201 / 2) = 201 / 2"
    using fl_pos[of "201 / 2" 46] by (simp add: py_round_def)
  have pos: "0 < fl (6 / 10)" by (simp add: c1)
  have "support (merge_close_zones
      \<lparr>support = [\<lparr>price = 100, zone_min = 399 / 4, zone_max = 401 / 4\<rparr>,
                  \<lparr>price = 401 / 4, zone_min = 100, zone_max = 201 / 2\<rparr>],
       resistance = []\<rparr> (fl (6 / 10)))
     = [\<lparr>price = 880664833383465 / 8796093022208, zone_min = 399 / 4, zone_max = 201 / 2\<rparr>]"
    by (simp add: merge_close_zones_def merge_list_def merge_step_def Let_def round2_f_def
        fadd_def fsub_def fmul_def fdiv_def py_round_def c1 c2 c3 c4 c5 c6 c7 c8 c9)
  then show ?thesis by simp
qed

subsection \<open>Resampling\<close>

lemma resample_ohlc_mem:
  "row \<in> set (resample_ohlc df r) \<longleftrightarrow>
     (\<exists>b \<in> set df. row = agg (bucket_end r (index b)) (bucket r df (bucket_end r (index b))))
     \<and> notna (Close row)"
  by (auto simp: resample_ohlc_def Let_def)

lemma bucket_nonempty:
  assumes "b \<in> set df"
  shows "b \<in> set (bucket r df (bucket_end r (index b)))"
  using assms by (simp add: bucket_def sort_index_def)

lemma first_valid_hd: "xs \<noteq> [] \<Longrightarrow> notna (f (hd xs)) \<Longrightarrow> first_valid (map f xs) = f (hd xs)"
  by (cases xs) (simp_all add: first_valid_def)

lemma last_valid_last: "xs \<noteq> [] \<Longrightarrow> notna (f (last xs)) \<Longrightarrow> last_valid (map f xs) = f (last xs)"
  by (cases xs rule: rev_cases) (simp_all add: last_valid_def)

lemma last_valid_notna:
  assumes "x \<in> set xs" and "notna x"
  shows "notna (last_valid xs)"
proof -
  have "filter notna xs \<noteq> []" using assms by (auto simp: filter_empty_conv)
  then obtain y ys where r: "rev (filter notna xs) = y # ys"
    by (cases "rev (filter notna xs)") auto
  then have "y \<in> set (filter notna xs)"
    by (metis list.set_intros(1) set_rev)
  then have "notna y" by simp
  with r show ?thesis by (simp add: last_valid_def)
qed

text \<open>
  Claim C4, as the code has it. Every row of the resampled frame is the aggregate of a
  non-empty bucket of the sorted daily rows: its Open is the first and its Close the last
  value of the bucket that is not NaN (the Open of the first row and the Close of the last
  row when these are not NaN), its High the maximum, its Low the minimum and its Volume
  the sum; and its Close is not NaN.
\<close>

theorem resample_ohlc_buckets:
  assumes "row \<in> set (resample_ohlc df r)"
  shows "\<exists>label g. g = bucket r df label \<and> g \<noteq> []
           \<and> index row = civil_from_days label
           \<and> Open row = first_valid (map Open g) \<and> Close row = last_valid (map Close g)
           \<and> High row = max_valid (map High g) \<and> Low row = min_valid (map Low g)
           \<and> Volume row = sum_valid (map Volume g)
           \<and> (notna (Open (hd g)) \<longrightarrow> Open row = Open (hd g))
           \<and> (notna (Close (last g)) \<longrightarrow> Close row = Close (last g))
           \<and> Close row \<noteq> NaN"
proof -
  from assms obtain b where b: "b \<in> set df"
    and row: "row = agg (bucket_end r (index b)) (bucket r df (bucket_end r (index b)))"
    and close: "notna (Close row)"
    unfolding resample_ohlc_mem by blast
  let ?label = "bucket_end r (index b)"
  let ?g = "bucket r df ?label"
  have ne: "?g \<noteq> []" using bucket_nonempty[OF b, of r] by auto
  have "notna (Open (hd ?g)) \<longrightarrow> Open row = Open (hd ?g)"
    using first_valid_hd[OF ne, of Open] by (simp add: row agg_def)
  moreover have "notna (Close (last ?g)) \<longrightarrow> Close row = Close (last ?g)"
    using last_valid_last[OF ne, of Close] by (simp add: row agg_def)
  moreover have "Close row \<noteq> NaN" using close by (simp add: notna_def)
  ultimately show ?thesis
    using ne by (intro exI[of _ ?label] exI[of _ ?g]) (simp add: row agg_def)
qed

lemma resample_ohlc_keeps_every_bucket:
  assumes "b \<in> set daily" and "notna (Close b)"
  shows "\<exists>row \<in> set (resample_ohlc daily r).
           index row = civil_from_days (bucket_end r (index b))
           \<and> row = agg (bucket_end r (index b)) (bucket r daily (bucket_end r (index b)))"
proof -
  let ?label = "bucket_end r (index b)"
  let ?row = "agg ?label (bucket r daily ?label)"
  have "Close b \<in> set (map Close (bucket r daily ?label))"
    using bucket_nonempty[OF assms(1), of r] by auto
  then have "notna (Close ?row)"
    using last_valid_notna[OF _ assms(2)] by (simp add: agg_def)
  then have "?row \<in> set (resample_ohlc daily r)"
    unfolding resample_ohlc_mem using assms(1) by blast
  then show ?thesis by (auto simp: agg_def)
qed



lemma fold_max_Fin:
  "fold (\<lambda>c m. if cell_le c m then m else c) (map Fin xs) (Fin x) = Fin (fold max xs x)"
  by (induction xs arbitrary: x) (auto simp: max_def)

lemma fold_min_Fin:
  "fold (\<lambda>c m. if cell_le m c then m else c) (map Fin xs) (Fin x) = Fin (fold min xs x)"
  by (induction xs arbitrary: x) (auto simp: min_def)

lemma filter_notna_Fin: "filter notna (map Fin xs) = map Fin xs"
  by (induction xs) (simp_all add: notna_def)

text \<open>On finite cells the aggregations are the maximum, the minimum and the sum.\<close>

lemma max_valid_Fin:
  assumes "xs \<noteq> []"
  shows "max_valid (map Fin xs) = Fin (Max (set xs))"
proof -
  from assms obtain x rest where xs: "xs = x # rest" by (cases xs) auto
  have "filter notna (map Fin xs) = Fin x # map Fin rest"
    using filter_notna_Fin[of xs] by (simp add: xs)
  then have "max_valid (map Fin xs) = Fin (fold max rest x)"
    by (simp add: max_valid_def fold_max_Fin)
  also have "fold max rest x = Max (set xs)"
    unfolding xs by (rule Max.set_eq_fold [symmetric])
  finally show ?thesis .
qed

lemma min_valid_Fin:
  assumes "xs \<noteq> []"
  shows "min_valid (map Fin xs) = Fin (Min (set xs))"
proof -
  from assms obtain x rest where xs: "xs = x # rest" by (cases xs) auto
  have "filter notna (map Fin xs) = Fin x # map Fin rest"
    using filter_notna_Fin[of xs] by (simp add: xs)
  then have "min_valid (map Fin xs) = Fin (fold min rest x)"
    by (simp add: min_valid_def fold_min_Fin)
  also have "fold min rest x = Min (set xs)"
    unfolding xs by (rule Min.set_eq_fold [symmetric])
  finally show ?thesis .
qed

lemma fold_add_Fin:
  "fold (\<lambda>c acc. cell_add acc c) (map Fin xs) (Fin a) = Fin (a + sum_list xs)"
  by (induction xs arbitrary: a) (simp_all add: add.assoc)

lemma sum_valid_Fin: "sum_valid (map Fin xs) = Fin (sum_list xs)"
  by (simp add: sum_valid_def filter_notna_Fin fold_add_Fin)

theorem resample_ohlc_buckets_witness:
  "\<lparr>index = \<lparr>d_year = 2024, d_month = 1, d_day = 31\<rparr>, Open = Fin 10, High = Fin 13,
     Low = Fin 9, Close = Fin 12, Volume = Fin 300\<rparr>
     \<in> set (resample_ohlc
         [\<lparr>index = \<lparr>d_year = 2024, d_month = 1, d_day = 30\<rparr>, Open = Fin 10, High = Fin 12,
            Low = Fin 9, Close = Fin 11, Volume = Fin 100\<rparr>,
          \<lparr>index = \<lparr>d_year = 2024, d_month = 1, d_day = 31\<rparr>, Open = Fin 11, High = Fin 13,
            Low = Fin 10, Close = Fin 12, Volume = Fin 200\<rparr>,
          \<lparr>index = \<lparr>d_year = 2024, d_month = 2, d_day = 1\<rparr>, Open = Fin 12, High = Fin 14,
            Low = Fin 11, Close = NaN, Volume = Fin 50\<rparr>] ME)
   \<and> Close \<lparr>index = \<lparr>d_year = 2024, d_month = 1, d_day = 31\<rparr>, Open = Fin 10, High = Fin 13,
        Low = Fin 9, Close = Fin 12, Volume = Fin 300\<rparr> \<noteq> NaN"
proof -
  let ?df = "[\<lparr>index = \<lparr>d_year = 2024, d_month = 1, d_day = 30\<rparr>, Open = Fin 10, High = Fin 12,
            Low = Fin 9, Close = Fin 11, Volume = Fin 100\<rparr>,
          \<lparr>index = \<lparr>d_year = 2024, d_month = 1, d_day = 31\<rparr>, Open = Fin 11, High = Fin 13,
            Low = Fin 10, Close = Fin 12, Volume = Fin 200\<rparr>,
          \<lparr>index = \<lparr>d_year = 2024, d_month = 2, d_day = 1\<rparr>, Open = Fin 12, High = Fin 14,
            Low = Fin 11, Close = NaN, Volume = Fin 50\<rparr>]"
  let ?row = "\<lparr>index = \<lparr>d_year = 2024, d_month = 1, d_day = 31\<rparr>, Open = Fin 10, High = Fin 13,
     Low = Fin 9, Close = Fin 12, Volume = Fin 300\<rparr>"
  have run: "resample_ohlc ?df ME = [?row]" by code_simp
  then have mem: "?row \<in> set (resample_ohlc ?df ME)" by simp
  from resample_ohlc_buckets[OF mem] have "Close ?row \<noteq> NaN" by blast
  with mem show ?thesis by blast
qed

text \<open>
  \<^verbatim>\<open>dropna\<close> removes NaN only: a daily row whose Close is infinite gives a monthly row whose
  Close is infinite.
\<close>

theorem resample_ohlc_infinite_close_counterexample:
  "resample_ohlc
     [\<lparr>index = \<lparr>d_year = 2024, d_month = 1, d_day = 2\<rparr>, Open = Fin 10, High = PInf,
        Low = Fin 9, Close = PInf, Volume = Fin 100\<rparr>] ME
   = [\<lparr>index = \<lparr>d_year = 2024, d_month = 1, d_day = 31\<rparr>, Open = Fin 10, High = PInf,
        Low = Fin 9, Close = PInf, Volume = Fin 100\<rparr>]"
  by code_simp

text \<open>
  Claim C9, as the code has it. When the weekly or monthly series is reconstructed from
  the daily one, the result has a row for the bucket of every daily row whose Close is not
  NaN. Nothing is asked of the position of the row in its bucket, so the bucket of the last
  daily row is present whether or not the series reaches the bucket's closing day.
\<close>

theorem fetch_interval_history_keeps_every_bucket:
  assumes "interval = ''1wk'' \<or> interval = ''1mo''"
    and "safe_history period interval = []" and "safe_download period interval = []"
    and "b \<in> set (safe_history period ''1d'')" and "notna (Close b)"
  shows "\<exists>row \<in> set (fetch_interval_history safe_history safe_download fetch_chart_data
                        period interval chart_range).
           index row = civil_from_days
             (bucket_end (if interval = ''1wk'' then W_FRI else ME) (index b))"
proof -
  let ?r = "if interval = ''1wk'' then W_FRI else ME"
  let ?daily = "normalize_ohlc_df (safe_history period ''1d'')"
  have b: "b \<in> set ?daily"
    using assms(4) by (auto simp: normalize_ohlc_df_def sort_index_def)
  then have ne: "?daily \<noteq> []" by auto
  from resample_ohlc_keeps_every_bucket[OF b assms(5), of ?r]
  obtain row where row: "row \<in> set (resample_ohlc ?daily ?r)"
    "index row = civil_from_days (bucket_end ?r (index b))" by blast
  then have ne2: "resample_ohlc ?daily ?r \<noteq> []" by auto
  have "fetch_interval_history safe_history safe_download fetch_chart_data
          period interval chart_range = resample_ohlc ?daily ?r"
    using assms(1,2,3) ne ne2
    by (auto simp: fetch_interval_history_def Let_def normalize_ohlc_df_def)
  with row show ?thesis by auto
qed

text \<open>
  A daily series that ends on 2024-02-01, before the month's closing day 2024-02-29: the
  monthly series reconstructed from it holds the row of February.
\<close>

theorem fetch_interval_history_trailing_bucket_counterexample:
  "fetch_interval_history
     (\<lambda>period interval. if interval = ''1d''
        then [\<lparr>index = \<lparr>d_year = 2024, d_month = 1, d_day = 30\<rparr>, Open = Fin 10, High = Fin 12,
                 Low = Fin 9, Close = Fin 11, Volume = Fin 100\<rparr>,
              \<lparr>index = \<lparr>d_year = 2024, d_month = 1, d_day = 31\<rparr>, Open = Fin 11, High = Fin 13,
                 Low = Fin 10, Close = Fin 12, Volume = Fin 200\<rparr>,
              \<lparr>index = \<lparr>d_year = 2024, d_month = 2, d_day = 1\<rparr>, Open = Fin 12, High = Fin 14,
                 Low = Fin 11, Close = Fin 13, Volume = Fin 50\<rparr>]
        else [])
     (\<lambda>period interval. []) (\<lambda>chart_range interval. []) ''5y'' ''1mo'' ''10y''
   = [\<lparr>index = \<lparr>d_year = 2024, d_month = 1, d_day = 31\<rparr>, Open = Fin 10, High = Fin 13,
        Low = Fin 9, Close = Fin 12, Volume = Fin 300\<rparr>,
      \<lparr>index = \<lparr>d_year = 2024, d_month = 2, d_day = 29\<rparr>, Open = Fin 12, High = Fin 14,
        Low = Fin 11, Close = Fin 13, Volume = Fin 50\<rparr>]
   \<and> days_from_civil \<lparr>d_year = 2024, d_month = 2, d_day = 1\<rparr>
       < bucket_end ME \<lparr>d_year = 2024, d_month = 2, d_day = 1\<rparr>"
  by code_simp

theorem fetch_interval_history_keeps_every_bucket_witness:
  "(''1mo'' = ''1wk'' \<or> ''1mo'' = ''1mo'')
   \<and> (\<lambda>period interval. if interval = ''1d''
          then [\<lparr>index = \<lparr>d_year = 2024, d_month = 2, d_day = 1\<rparr>, Open = Fin 12, High = Fin 14,
                   Low = Fin 11, Close = Fin 13, Volume = Fin 50\<rparr>]
          else []) ''5y'' ''1mo'' = []
   \<and> \<lparr>index = \<lparr>d_year = 2024, d_month = 2, d_day = 1\<rparr>, Open = Fin 12, High = Fin 14,
        Low = Fin 11, Close = Fin 13, Volume = Fin 50\<rparr>
       \<in> set ((\<lambda>period interval. if interval = ''1d''
          then [\<lparr>index = \<lparr>d_year = 2024, d_month = 2, d_day = 1\<rparr>, Open = Fin 12, High = Fin 14,
                   Low = Fin 11, Close = Fin 13, Volume = Fin 50\<rparr>]
          else []) ''5y'' ''1d'')
   \<and> notna (Fin 13)
   \<and> (\<exists>row \<in> set (fetch_interval_history
          (\<lambda>period interval. if interval = ''1d''
             then [\<lparr>index = \<lparr>d_year = 2024, d_month = 2, d_day = 1\<rparr>, Open = Fin 12, High = Fin 14,
                      Low = Fin 11, Close = Fin 13, Volume = Fin 50\<rparr>]
             else [])
          (\<lambda>period interval. []) (\<lambda>chart_range interval. []) ''5y'' ''1mo'' ''10y'').
         index row = \<lparr>d_year = 2024, d_month = 2, d_day = 29\<rparr>)"
proof -
  let ?b = "\<lparr>index = \<lparr>d_year = 2024, d_month = 2, d_day = 1\<rparr>, Open = Fin 12, High = Fin 14,
                   Low = Fin 11, Close = Fin 13, Volume = Fin 50\<rparr>"
  let ?h = "\<lambda>(period :: string) interval. if interval = ''1d'' then [?b] else []"
  have lab: "civil_from_days (bucket_end ME \<lparr>d_year = 2024, d_month = 2, d_day = 1\<rparr>)
      = \<lparr>d_year = 2024, d_month = 2, d_day = 29\<rparr>"
    by code_simp
  have "\<exists>row \<in> set (fetch_interval_history ?h (\<lambda>period interval. [])
              (\<lambda>chart_range interval. []) ''5y'' ''1mo'' ''10y'').
           index row = civil_from_days (bucket_end (if ''1mo'' = ''1wk'' then W_FRI else ME) (index ?b))"
    by (rule fetch_interval_history_keeps_every_bucket) (simp_all add: notna_def)
  then show ?thesis
    by (simp add: lab notna_def)
qed

subsection \<open>Market state with a missing side\<close>

lemma max_default_None: "max_default xs = None \<longleftrightarrow> xs = []"
  by (cases xs) (auto split: option.splits)

lemma min_default_None: "min_default xs = None \<longleftrightarrow> xs = []"
  by (cases xs) (auto split: option.splits)

text \<open>
  Claim C10. When no support zone lies at or below the current price, or no resistance
  zone lies at or above it, \<open>determine_market_state\<close> answers \<open>IN_NONE\<close> with strength 0,
  whatever the other side holds.
\<close>

theorem determine_market_state_missing_side:
  assumes "(\<forall>s \<in> set supports. \<not> price s \<le> p) \<or> (\<forall>r \<in> set resistances. \<not> p \<le> price r)"
  shows "determine_market_state p supports resistances proximity = Inr (IN_NONE, 0)"
proof -
  from assms consider
      (sup) "filter (\<lambda>v. v \<le> p) (map price supports) = []"
    | (res) "filter (\<lambda>v. p \<le> v) (map price resistances) = []"
    by (auto simp: filter_empty_conv)
  then show ?thesis
  proof cases
    case sup
    then have "max_default (filter (\<lambda>v. v \<le> p) (map price supports)) = None"
      by (simp add: max_default_None)
    then show ?thesis by (simp add: determine_market_state_def)
  next
    case res
    then have "min_default (filter (\<lambda>v. p \<le> v) (map price resistances)) = None"
      by (simp add: min_default_None)
    then show ?thesis
      by (simp add: determine_market_state_def split: option.splits)
  qed
qed

theorem determine_market_state_missing_side_witness:
  "((\<forall>s \<in> set [\<lparr>price = 995 / 10, zone_min = 99, zone_max = 100\<rparr>]. \<not> price s \<le> 100)
      \<or> (\<forall>r \<in> set ([] :: zone list). \<not> (100::real) \<le> price r))
   \<and> determine_market_state 100 [\<lparr>price = 995 / 10, zone_min = 99, zone_max = 100\<rparr>] [] (3 / 2)
       = Inr (IN_NONE, 0)"
  using determine_market_state_missing_side
    [of "[\<lparr>price = 995 / 10, zone_min = 99, zone_max = 100\<rparr>]" 100 "[]" "3 / 2"]
  by simp

end
